theory Spec2Isabelle
  imports Main "HOL-Library.Word"
begin

unbundle bit_operations_syntax

section \<open>JavaScript numbers under the bitwise operators\<close>

text \<open>
  The operators \<^verbatim>\<open>|\<close>, \<^verbatim>\<open>&\<close>, \<^verbatim>\<open>^\<close>, \<^verbatim>\<open>~\<close> and \<^verbatim>\<open><<\<close> of JavaScript convert their operands
  with ToInt32 and yield a signed 32-bit integer. Such a result is a \<open>32 word\<close> here, read
  back as a number by \<open>to_number\<close> (two's complement). A number a caller passes in is an
  \<open>int\<close>: the integer-valued numbers. The field \<^verbatim>\<open>this.flags\<close> only ever receives the literal
  \<^verbatim>\<open>0\<close> or the result of a bitwise operator, so it is an \<open>int32\<close>.
\<close>

type_synonym int32 = "32 word"

definition ToInt32 :: "int \<Rightarrow> int32" where
  "ToInt32 x = word_of_int x"

definition to_number :: "int32 \<Rightarrow> int" where
  "to_number w = sint w"

text \<open>\<^verbatim>\<open>a << n\<close>: only the low five bits of the shift count are used.\<close>

definition js_shl :: "int32 \<Rightarrow> nat \<Rightarrow> int32" where
  "js_shl a n = push_bit (n mod 32) a"

section \<open>Plain objects with string keys\<close>

text \<open>
  A plain object is the list of its own properties in the order \<^verbatim>\<open>Object.keys\<close> reports
  them: the keys that are array indices first, in ascending numeric order, then the other
  keys in the order they were first assigned. An array index is the decimal numeral,
  without leading zeros, of an integer below \<open>2^32 - 1\<close>.
\<close>

type_synonym js_object = "(string \<times> int32) list"

definition is_digit :: "char \<Rightarrow> bool" where
  "is_digit c = (c \<in> set ''0123456789'')"

definition decimal_val :: "string \<Rightarrow> int" where
  "decimal_val s = foldl (\<lambda>acc c. 10 * acc + (of_char c - 48)) 0 s"

definition is_array_index :: "string \<Rightarrow> bool" where
  "is_array_index s =
     (case s of
        [] \<Rightarrow> False
      | c # cs \<Rightarrow> list_all is_digit s \<and> (if c = CHR ''0'' then cs = [] else True)
                 \<and> decimal_val s < 4294967295)"

fun update_own :: "string \<Rightarrow> int32 \<Rightarrow> js_object \<Rightarrow> js_object" where
  "update_own k v [] = []"
| "update_own k v ((k', v') # rest) =
     (if k' = k then (k', v) # rest else (k', v') # update_own k v rest)"

fun insert_index :: "string \<Rightarrow> int32 \<Rightarrow> js_object \<Rightarrow> js_object" where
  "insert_index k v [] = [(k, v)]"
| "insert_index k v ((k', v') # rest) =
     (if is_array_index k' \<and> decimal_val k' < decimal_val k
      then (k', v') # insert_index k v rest
      else (k, v) # (k', v') # rest)"

text \<open>
  \<^verbatim>\<open>acc[key] = v\<close> on an object created by \<^verbatim>\<open>{}\<close>, with \<open>v\<close> a number. The key
  \<^verbatim>\<open>__proto__\<close> is an accessor inherited from \<^verbatim>\<open>Object.prototype\<close> whose setter ignores
  a number, so no own property is created. A key the object already has keeps its place
  and takes the new value. A new key is placed among the array indices or at the end.
\<close>

definition obj_set :: "string \<Rightarrow> int32 \<Rightarrow> js_object \<Rightarrow> js_object" where
  "obj_set k v obj =
     (if k = ''__proto__'' then obj
      else if k \<in> set (map fst obj) then update_own k v obj
      else if is_array_index k then insert_index k v obj
      else obj @ [(k, v)])"

definition Object_keys :: "js_object \<Rightarrow> string list" where
  "Object_keys obj = map fst obj"

definition Object_values :: "js_object \<Rightarrow> int32 list" where
  "Object_values obj = map snd obj"

text \<open>\<^verbatim>\<open>obj[key]\<close> for an own key; \<open>None\<close> stands for \<^verbatim>\<open>undefined\<close>.\<close>

definition obj_get :: "js_object \<Rightarrow> string \<Rightarrow> int32 option" where
  "obj_get obj k = map_of obj k"

section \<open>The class FlagsManager\<close>

definition DEFAULT_FLAGS :: js_object where
  "DEFAULT_FLAGS =
     [(''VERIFIED_EMAIL'', js_shl 1 0),
      (''VERIFIED_PHONE'', js_shl 1 1),
      (''INVITED'', js_shl 1 2),
      (''ACCEPTED'', js_shl 1 3),
      (''RESET_PASSWORD'', js_shl 1 4),
      (''LOGGED_IN_FIRST_TIME'', js_shl 1 5),
      (''LOGGED_IN'', js_shl 1 6),
      (''ADMIN'', js_shl 1 7),
      (''MODERATOR'', js_shl 1 8),
      (''BANNED'', js_shl 1 9),
      (''PREMIUM_USER'', js_shl 1 10),
      (''TWO_FACTOR_AUTH'', js_shl 1 11),
      (''EMAIL_NOTIFICATIONS'', js_shl 1 12),
      (''SMS_NOTIFICATIONS'', js_shl 1 13),
      (''PROFILE_COMPLETED'', js_shl 1 14)]"

record FlagsManager =
  flags :: int32
  FLAGS :: js_object

text \<open>
  The only \<^verbatim>\<open>throw\<close> of the class is \<^verbatim>\<open>new Error(`Invalid flag: ${flag}`)\<close>. It carries the
  rejected value: a number, or \<^verbatim>\<open>undefined\<close> when a property lookup found nothing.
\<close>

datatype error = InvalidFlag int | InvalidFlag_undefined

text \<open>
  A method takes the instance and returns what it returned or threw, together with the
  instance as the call left it.
\<close>

type_synonym 'a outcome = "(error + 'a) \<times> FlagsManager"

text \<open>
  \<^verbatim>\<open>flagNames.reduce((acc, flag, index) => { acc[flag] = 1 << index; return acc; }, {})\<close>
\<close>

definition createCustomFlags :: "string list \<Rightarrow> js_object" where
  "createCustomFlags flagNames =
     foldl (\<lambda>acc (flag, index). obj_set flag (js_shl 1 index) acc) []
       (zip flagNames [0 ..< length flagNames])"

text \<open>
  The constructor; \<open>None\<close> is a missing argument. An array is truthy even when it is empty,
  so every list of names takes the first branch. No statement of the constructor throws.
\<close>

definition new_FlagsManager :: "string list option \<Rightarrow> error + FlagsManager" where
  "new_FlagsManager customFlagNames =
     Inr \<lparr>flags = 0,
          FLAGS = (case customFlagNames of
                     Some names \<Rightarrow> createCustomFlags names
                   | None \<Rightarrow> DEFAULT_FLAGS)\<rparr>"

text \<open>The numbers that \<^verbatim>\<open>Object.values(this.FLAGS)\<close> lists: the values of the Flag Definition Set.\<close>

definition flagValues :: "FlagsManager \<Rightarrow> int list" where
  "flagValues this = map to_number (Object_values (FLAGS this))"

text \<open>\<^verbatim>\<open>_validateFlag\<close>: \<^verbatim>\<open>includes\<close> compares the argument itself, unconverted.\<close>

definition validateFlag :: "int \<Rightarrow> FlagsManager \<Rightarrow> unit outcome" where
  "validateFlag flag this =
     (if \<not> (flag \<in> set (flagValues this))
      then (Inl (InvalidFlag flag), this)
      else (Inr (), this))"

fun forEach_validateFlag :: "int list \<Rightarrow> FlagsManager \<Rightarrow> unit outcome" where
  "forEach_validateFlag [] this = (Inr (), this)"
| "forEach_validateFlag (flag # rest) this =
     (case validateFlag flag this of
        (Inl e, this') \<Rightarrow> (Inl e, this')
      | (Inr _, this') \<Rightarrow> forEach_validateFlag rest this')"

definition setFlags :: "int list \<Rightarrow> FlagsManager \<Rightarrow> unit outcome" where
  "setFlags flags' this =
     (case forEach_validateFlag flags' this of
        (Inl e, this') \<Rightarrow> (Inl e, this')
      | (Inr _, this') \<Rightarrow>
          (Inr (), this'\<lparr>flags := foldl (\<lambda>acc flag. acc OR ToInt32 flag) (flags this') flags'\<rparr>))"

definition isFlagSet :: "int \<Rightarrow> FlagsManager \<Rightarrow> bool outcome" where
  "isFlagSet flag this =
     (case validateFlag flag this of
        (Inl e, this') \<Rightarrow> (Inl e, this')
      | (Inr _, this') \<Rightarrow> (Inr (flags this' AND ToInt32 flag \<noteq> 0), this'))"

definition toggleFlag :: "int \<Rightarrow> FlagsManager \<Rightarrow> unit outcome" where
  "toggleFlag flag this =
     (case validateFlag flag this of
        (Inl e, this') \<Rightarrow> (Inl e, this')
      | (Inr _, this') \<Rightarrow> (Inr (), this'\<lparr>flags := flags this' XOR ToInt32 flag\<rparr>))"

definition unsetFlag :: "int \<Rightarrow> FlagsManager \<Rightarrow> unit outcome" where
  "unsetFlag flag this =
     (case validateFlag flag this of
        (Inl e, this') \<Rightarrow> (Inl e, this')
      | (Inr _, this') \<Rightarrow> (Inr (), this'\<lparr>flags := flags this' AND NOT (ToInt32 flag)\<rparr>))"



definition clearFlags :: "FlagsManager \<Rightarrow> unit outcome" where
  "clearFlags this = (Inr (), this\<lparr>flags := 0\<rparr>)"

definition areFlagsSet :: "int list \<Rightarrow> FlagsManager \<Rightarrow> bool outcome" where
  "areFlagsSet flags' this =
     (let combinedFlags = foldl (\<lambda>acc flag. acc OR ToInt32 flag) 0 flags'
      in (Inr (flags this AND combinedFlags = combinedFlags), this))"

subsection \<open>Sequences of mutating calls\<close>

datatype operation = SetFlags "int list" | ToggleFlag int | UnsetFlag int | ClearFlags

fun apply_operation :: "operation \<Rightarrow> FlagsManager \<Rightarrow> unit outcome" where
  "apply_operation (SetFlags fs) this = setFlags fs this"
| "apply_operation (ToggleFlag f) this = toggleFlag f this"
| "apply_operation (UnsetFlag f) this = unsetFlag f this"
| "apply_operation ClearFlags this = clearFlags this"

text \<open>A script of calls: an uncaught throw ends it.\<close>

fun run_operations :: "operation list \<Rightarrow> FlagsManager \<Rightarrow> unit outcome" where
  "run_operations [] this = (Inr (), this)"
| "run_operations (op # rest) this =
     (case apply_operation op this of
        (Inl e, this') \<Rightarrow> (Inl e, this')
      | (Inr _, this') \<Rightarrow> run_operations rest this')"

subsection \<open>The invariant of the register\<close>

text \<open>Every bit of the register is a bit of some value of the Flag Definition Set.\<close>

definition within_defined_bits :: "FlagsManager \<Rightarrow> bool" where
  "within_defined_bits this =
     (\<forall>n. bit (flags this) n \<longrightarrow> (\<exists>w \<in> set (Object_values (FLAGS this)). bit w n))"

section \<open>Evaluating the model\<close>

lemma ToInt32_to_number [simp]: "ToInt32 (to_number w) = w"
  by (simp add: ToInt32_def to_number_def)

lemma DEFAULT_FLAGS_values:
  "Object_values DEFAULT_FLAGS =
     [1, 2, 4, 8, 16, 32, 64, 128, 256, 512, 1024, 2048, 4096, 8192, 16384]"
  by (simp add: DEFAULT_FLAGS_def Object_values_def js_shl_def)

lemma DEFAULT_FLAGS_numbers:
  "map to_number (Object_values DEFAULT_FLAGS) =
     [1, 2, 4, 8, 16, 32, 64, 128, 256, 512, 1024, 2048, 4096, 8192, 16384]"
  by (simp add: DEFAULT_FLAGS_values to_number_def)

section \<open>Validation\<close>

lemma validateFlag_member:
  "flag \<in> set (flagValues this) \<Longrightarrow> validateFlag flag this = (Inr (), this)"
  by (simp add: validateFlag_def)

lemma validateFlag_not_member:
  "flag \<notin> set (flagValues this) \<Longrightarrow> validateFlag flag this = (Inl (InvalidFlag flag), this)"
  by (simp add: validateFlag_def)

text \<open>The \<^verbatim>\<open>forEach\<close> of \<^verbatim>\<open>setFlags\<close> throws at the first argument that is no flag value.\<close>

lemma forEach_validateFlag_find:
  "forEach_validateFlag fs this =
     (case find (\<lambda>f. f \<notin> set (flagValues this)) fs of
        None \<Rightarrow> (Inr (), this)
      | Some v \<Rightarrow> (Inl (InvalidFlag v), this))"
  by (induction fs) (simp_all add: validateFlag_def)

section \<open>setFlags\<close>

text \<open>
  Claim C2. Whatever the register holds, when some argument of \<^verbatim>\<open>setFlags\<close> is not a value
  of the Flag Definition Set the call throws \<open>InvalidFlag\<close> with the first such argument and
  leaves the instance as it was: nothing is applied. In particular \<^verbatim>\<open>1 << 15\<close> is 32768, and
  \<^verbatim>\<open>setFlags(1 << 15)\<close> on an instance with the default flags throws \<open>InvalidFlag 32768\<close>
  and changes nothing.
\<close>

theorem setFlags_invalid_all_or_nothing:
  assumes "\<exists>f \<in> set fs. f \<notin> set (flagValues this)"
  shows "(\<exists>v. find (\<lambda>f. f \<notin> set (flagValues this)) fs = Some v \<and>
              setFlags fs this = (Inl (InvalidFlag v), this)) \<and>
         to_number (js_shl 1 15) = 32768 \<and>
         setFlags [to_number (js_shl 1 15)] \<lparr>flags = r, FLAGS = DEFAULT_FLAGS\<rparr> =
           (Inl (InvalidFlag 32768), \<lparr>flags = r, FLAGS = DEFAULT_FLAGS\<rparr>)"
proof -
  from assms obtain v where v: "find (\<lambda>f. f \<notin> set (flagValues this)) fs = Some v"
    by (cases "find (\<lambda>f. f \<notin> set (flagValues this)) fs") (auto simp: find_None_iff)
  then have "setFlags fs this = (Inl (InvalidFlag v), this)"
    by (simp add: setFlags_def forEach_validateFlag_find)
  moreover have "to_number (js_shl 1 15) = 32768"
    by (simp add: to_number_def js_shl_def)
  moreover have "setFlags [32768] \<lparr>flags = r, FLAGS = DEFAULT_FLAGS\<rparr> =
           (Inl (InvalidFlag 32768), \<lparr>flags = r, FLAGS = DEFAULT_FLAGS\<rparr>)"
    by (simp add: setFlags_def validateFlag_def flagValues_def DEFAULT_FLAGS_numbers)
  ultimately show ?thesis using v by simp
qed

theorem setFlags_invalid_witness:
  "(\<exists>f \<in> set [1, 3, 4, 7]. f \<notin> set (flagValues \<lparr>flags = 2, FLAGS = DEFAULT_FLAGS\<rparr>)) \<and>
   setFlags [1, 3, 4, 7] \<lparr>flags = 2, FLAGS = DEFAULT_FLAGS\<rparr> =
     (Inl (InvalidFlag 3), \<lparr>flags = 2, FLAGS = DEFAULT_FLAGS\<rparr>)"
proof -
  have h: "\<exists>f \<in> set [1, 3, 4, 7]. f \<notin> set (flagValues \<lparr>flags = 2, FLAGS = DEFAULT_FLAGS\<rparr>)"
    by (simp add: flagValues_def DEFAULT_FLAGS_numbers)
  show ?thesis
    using h setFlags_invalid_all_or_nothing [OF h, of 0]
    by (simp add: flagValues_def DEFAULT_FLAGS_numbers)
qed

text \<open>
  Claim C9. \<^verbatim>\<open>setFlags()\<close> with no argument returns normally, whatever the register and
  the Flag Definition Set are, and leaves the instance as it was.
\<close>

theorem setFlags_no_arguments:
  "setFlags [] this = (Inr (), this)"
  by (simp add: setFlags_def)

section \<open>areFlagsSet\<close>

lemma bit_foldl_OR:
  "bit (foldl (\<lambda>acc flag. acc OR ToInt32 flag) a fs) n \<longleftrightarrow>
     bit a n \<or> (\<exists>f \<in> set fs. bit (ToInt32 f) n)"
  by (induction fs arbitrary: a) (auto simp: bit_or_iff)

lemma AND_eq_iff_bits:
  fixes r m :: int32
  shows "r AND m = m \<longleftrightarrow> (\<forall>n. bit m n \<longrightarrow> bit r n)"
proof
  assume eq: "r AND m = m"
  show "\<forall>n. bit m n \<longrightarrow> bit r n"
  proof (intro allI impI)
    fix n
    assume "bit m n"
    then have "bit (r AND m) n" by (simp add: eq)
    then show "bit r n" by (simp add: bit_and_iff)
  qed
next
  assume "\<forall>n. bit m n \<longrightarrow> bit r n"
  then show "r AND m = m"
    by (intro bit_eqI) (auto simp: bit_and_iff)
qed

text \<open>
  Claim C3. \<^verbatim>\<open>areFlagsSet\<close> validates nothing: for every register and every list of integers it
  returns normally, leaves the instance alone, and answers whether
  \<open>register AND mask = mask\<close>, where the mask is the arguments combined by \<^verbatim>\<open>|\<close> from 0.
  That is so exactly when every argument, as \<^verbatim>\<open>|\<close> reads it, has all its bits in the
  register. With no argument the answer is true.
\<close>

theorem areFlagsSet_composite_mask:
  "areFlagsSet fs this =
     (Inr (flags this AND foldl (\<lambda>acc flag. acc OR ToInt32 flag) 0 fs =
           foldl (\<lambda>acc flag. acc OR ToInt32 flag) 0 fs), this) \<and>
   (flags this AND foldl (\<lambda>acc flag. acc OR ToInt32 flag) 0 fs =
      foldl (\<lambda>acc flag. acc OR ToInt32 flag) 0 fs
    \<longleftrightarrow> (\<forall>f \<in> set fs. flags this AND ToInt32 f = ToInt32 f)) \<and>
   areFlagsSet [] this = (Inr True, this)"
proof -
  have "flags this AND foldl (\<lambda>acc flag. acc OR ToInt32 flag) 0 fs =
          foldl (\<lambda>acc flag. acc OR ToInt32 flag) 0 fs
        \<longleftrightarrow> (\<forall>f \<in> set fs. flags this AND ToInt32 f = ToInt32 f)"
    unfolding AND_eq_iff_bits bit_foldl_OR by auto
  then show ?thesis
    by (simp add: areFlagsSet_def)
qed

theorem areFlagsSet_witness:
  "areFlagsSet [1, 6, 4294967296] \<lparr>flags = 5, FLAGS = DEFAULT_FLAGS\<rparr> =
     (Inr False, \<lparr>flags = 5, FLAGS = DEFAULT_FLAGS\<rparr>) \<and>
   areFlagsSet [1, 4, 4294967296] \<lparr>flags = 5, FLAGS = DEFAULT_FLAGS\<rparr> =
     (Inr True, \<lparr>flags = 5, FLAGS = DEFAULT_FLAGS\<rparr>) \<and>
   areFlagsSet [] \<lparr>flags = 5, FLAGS = DEFAULT_FLAGS\<rparr> =
     (Inr True, \<lparr>flags = 5, FLAGS = DEFAULT_FLAGS\<rparr>)"
  using areFlagsSet_composite_mask [of "[1, 6, 4294967296]" "\<lparr>flags = 5, FLAGS = DEFAULT_FLAGS\<rparr>"]
    areFlagsSet_composite_mask [of "[1, 4, 4294967296]" "\<lparr>flags = 5, FLAGS = DEFAULT_FLAGS\<rparr>"]
  by (simp add: ToInt32_def)

section \<open>The default flags\<close>

lemma default_flagValues:
  "flagValues \<lparr>flags = r, FLAGS = DEFAULT_FLAGS\<rparr> =
     [1, 2, 4, 8, 16, 32, 64, 128, 256, 512, 1024, 2048, 4096, 8192, 16384]"
  by (simp add: flagValues_def DEFAULT_FLAGS_numbers)

text \<open>
  Claim C6. The scenario on a fresh instance with the default flags, where
  \<^verbatim>\<open>VERIFIED_EMAIL\<close> is 1, \<^verbatim>\<open>INVITED\<close> is 4 and \<^verbatim>\<open>ACCEPTED\<close> is 8: \<^verbatim>\<open>setFlags(1, 4)\<close> makes the
  register 5; \<^verbatim>\<open>isFlagSet(1)\<close> is then true and \<^verbatim>\<open>isFlagSet(8)\<close> false; \<^verbatim>\<open>toggleFlag(1)\<close> makes
  the register 4; \<^verbatim>\<open>unsetFlag(4)\<close> makes it 0.
\<close>

theorem default_scenario:
  "new_FlagsManager None = Inr \<lparr>flags = 0, FLAGS = DEFAULT_FLAGS\<rparr> \<and>
   obj_get DEFAULT_FLAGS ''VERIFIED_EMAIL'' = Some 1 \<and>
   obj_get DEFAULT_FLAGS ''INVITED'' = Some 4 \<and>
   obj_get DEFAULT_FLAGS ''ACCEPTED'' = Some 8 \<and>
   setFlags [1, 4] \<lparr>flags = 0, FLAGS = DEFAULT_FLAGS\<rparr> =
     (Inr (), \<lparr>flags = 5, FLAGS = DEFAULT_FLAGS\<rparr>) \<and>
   to_number 5 = 5 \<and>
   isFlagSet 1 \<lparr>flags = 5, FLAGS = DEFAULT_FLAGS\<rparr> =
     (Inr True, \<lparr>flags = 5, FLAGS = DEFAULT_FLAGS\<rparr>) \<and>
   isFlagSet 8 \<lparr>flags = 5, FLAGS = DEFAULT_FLAGS\<rparr> =
     (Inr False, \<lparr>flags = 5, FLAGS = DEFAULT_FLAGS\<rparr>) \<and>
   toggleFlag 1 \<lparr>flags = 5, FLAGS = DEFAULT_FLAGS\<rparr> =
     (Inr (), \<lparr>flags = 4, FLAGS = DEFAULT_FLAGS\<rparr>) \<and>
   to_number 4 = 4 \<and>
   unsetFlag 4 \<lparr>flags = 4, FLAGS = DEFAULT_FLAGS\<rparr> =
     (Inr (), \<lparr>flags = 0, FLAGS = DEFAULT_FLAGS\<rparr>) \<and>
   to_number 0 = 0"
proof -
  have new: "new_FlagsManager None = Inr \<lparr>flags = 0, FLAGS = DEFAULT_FLAGS\<rparr>"
    by (simp add: new_FlagsManager_def)
  have names: "obj_get DEFAULT_FLAGS ''VERIFIED_EMAIL'' = Some 1"
    "obj_get DEFAULT_FLAGS ''INVITED'' = Some 4"
    "obj_get DEFAULT_FLAGS ''ACCEPTED'' = Some 8"
    by (simp_all add: obj_get_def DEFAULT_FLAGS_def js_shl_def)
  have set: "setFlags [1, 4] \<lparr>flags = 0, FLAGS = DEFAULT_FLAGS\<rparr> =
     (Inr (), \<lparr>flags = 5, FLAGS = DEFAULT_FLAGS\<rparr>)"
    by (simp add: setFlags_def validateFlag_def default_flagValues ToInt32_def)
  have q1: "isFlagSet 1 \<lparr>flags = 5, FLAGS = DEFAULT_FLAGS\<rparr> =
     (Inr True, \<lparr>flags = 5, FLAGS = DEFAULT_FLAGS\<rparr>)"
    by (simp add: isFlagSet_def validateFlag_def default_flagValues ToInt32_def)
  have q2: "isFlagSet 8 \<lparr>flags = 5, FLAGS = DEFAULT_FLAGS\<rparr> =
     (Inr False, \<lparr>flags = 5, FLAGS = DEFAULT_FLAGS\<rparr>)"
    by (simp add: isFlagSet_def validateFlag_def default_flagValues ToInt32_def)
  have tog: "toggleFlag 1 \<lparr>flags = 5, FLAGS = DEFAULT_FLAGS\<rparr> =
     (Inr (), \<lparr>flags = 4, FLAGS = DEFAULT_FLAGS\<rparr>)"
    by (simp add: toggleFlag_def validateFlag_def default_flagValues ToInt32_def)
  have uns: "unsetFlag 4 \<lparr>flags = 4, FLAGS = DEFAULT_FLAGS\<rparr> =
     (Inr (), \<lparr>flags = 0, FLAGS = DEFAULT_FLAGS\<rparr>)"
    by (simp add: unsetFlag_def validateFlag_def default_flagValues ToInt32_def)
  have nums: "to_number 5 = 5" "to_number 4 = 4" "to_number 0 = 0"
    by (simp_all add: to_number_def)
  from new names set q1 q2 tog uns nums show ?thesis
    by (intro conjI)
qed

section \<open>Assignments to a plain object and createCustomFlags\<close>

lemma createCustomFlags_snoc:
  "createCustomFlags (names @ [x]) = obj_set x (js_shl 1 (length names)) (createCustomFlags names)"
  by (simp add: createCustomFlags_def)

lemma createCustomFlags_Nil: "createCustomFlags [] = []"
  by (simp add: createCustomFlags_def)

lemma map_of_update_own:
  "map_of (update_own k v obj) x =
     (if x = k then map_option (\<lambda>_. v) (map_of obj k) else map_of obj x)"
  by (induction obj) auto

lemma set_insert_index: "set (insert_index k v obj) = insert (k, v) (set obj)"
  by (induction k v obj rule: insert_index.induct) (simp_all add: insert_commute)

lemma map_of_insert_index:
  "map_of obj k = None \<Longrightarrow>
     map_of (insert_index k v obj) x = (if x = k then Some v else map_of obj x)"
  by (induction obj) (auto split: if_splits)

lemma map_of_snoc:
  "map_of obj k = None \<Longrightarrow>
     map_of (obj @ [(k, v)]) x = (if x = k then Some v else map_of obj x)"
  by (simp add: map_add_def split: option.splits)

lemma obj_get_obj_set:
  "obj_get (obj_set k v obj) k' =
     (if k = ''__proto__'' then obj_get obj k'
      else if k' = k then Some v else obj_get obj k')"
proof (cases "k \<in> set (map fst obj)")
  case True
  then obtain y where "map_of obj k = Some y"
    by (cases "map_of obj k") (auto simp: map_of_eq_None_iff)
  with True show ?thesis
    by (simp add: obj_get_def obj_set_def map_of_update_own)
next
  case False
  then have none: "map_of obj k = None"
    by (simp add: map_of_eq_None_iff)
  from False show ?thesis
    by (simp add: obj_get_def obj_set_def map_of_insert_index [OF none] map_of_snoc [OF none]
          del: map_of_append)
qed

lemma keys_update_own: "map fst (update_own k v obj) = map fst obj"
  by (induction obj) auto

lemma distinct_insert_index:
  "k \<notin> set (map fst obj) \<Longrightarrow> distinct (map fst obj) \<Longrightarrow>
     distinct (map fst (insert_index k v obj))"
proof (induction obj)
  case Nil
  show ?case by simp
next
  case (Cons p obj)
  obtain k' v' where p: "p = (k', v')" by (cases p)
  from Cons.prems have k: "k \<noteq> k'" "k \<notin> set (map fst obj)"
    and d: "k' \<notin> set (map fst obj)" "distinct (map fst obj)"
    by (auto simp: p)
  have "k' \<notin> fst ` set (insert_index k v obj)"
    using k d by (auto simp: set_insert_index)
  with Cons.IH [OF k(2) d(2)] k d show ?case
    by (simp add: p)
qed

lemma distinct_obj_set:
  "distinct (Object_keys obj) \<Longrightarrow> distinct (Object_keys (obj_set k v obj))"
  by (simp add: Object_keys_def obj_set_def keys_update_own distinct_insert_index)

lemma distinct_createCustomFlags: "distinct (Object_keys (createCustomFlags names))"
proof (induction names rule: rev_induct)
  case Nil
  show ?case by (simp add: createCustomFlags_Nil Object_keys_def)
next
  case (snoc x names)
  then show ?case by (simp add: createCustomFlags_snoc distinct_obj_set)
qed

lemma set_update_own: "set (update_own k v obj) \<subseteq> insert (k, v) (set obj)"
  by (induction k v obj rule: update_own.induct) (auto split: if_splits)

lemma values_obj_set:
  "set (Object_values (obj_set k v obj)) \<subseteq> insert v (set (Object_values obj))"
proof -
  have "set (obj_set k v obj) \<subseteq> insert (k, v) (set obj)"
    using set_update_own [of k v obj]
    by (auto simp: obj_set_def set_insert_index)
  then have "snd ` set (obj_set k v obj) \<subseteq> snd ` insert (k, v) (set obj)"
    by (rule image_mono)
  then show ?thesis
    by (simp add: Object_values_def)
qed

lemma values_createCustomFlags:
  "w \<in> set (Object_values (createCustomFlags names)) \<Longrightarrow> \<exists>i < length names. w = js_shl 1 i"
proof (induction names rule: rev_induct)
  case Nil
  then show ?case by (simp add: createCustomFlags_Nil Object_values_def)
next
  case (snoc x names)
  from snoc.prems values_obj_set [of x "js_shl 1 (length names)" "createCustomFlags names"]
  have "w = js_shl 1 (length names) \<or> w \<in> set (Object_values (createCustomFlags names))"
    by (auto simp: createCustomFlags_snoc)
  then show ?case
  proof
    assume "w = js_shl 1 (length names)"
    then show ?thesis by auto
  next
    assume "w \<in> set (Object_values (createCustomFlags names))"
    then obtain i where "i < length names" "w = js_shl 1 i" using snoc.IH by blast
    then show ?thesis by (auto intro: exI [of _ i])
  qed
qed

lemma createCustomFlags_last_occurrence:
  assumes "N < length names"
    and "names ! N \<noteq> ''__proto__''"
    and "\<forall>j. N < j \<and> j < length names \<longrightarrow> names ! j \<noteq> names ! N"
  shows "obj_get (createCustomFlags names) (names ! N) = Some (js_shl 1 N)"
  using assms
proof (induction names rule: rev_induct)
  case Nil
  then show ?case by simp
next
  case (snoc x names)
  show ?case
  proof (cases "N = length names")
    case True
    with snoc.prems show ?thesis
      by (simp add: createCustomFlags_snoc obj_get_obj_set)
  next
    case False
    with snoc.prems have N: "N < length names" by simp
    then have nth: "(names @ [x]) ! N = names ! N" by (simp add: nth_append)
    from snoc.prems(3) N have "x \<noteq> names ! N"
      by (metis length_append_singleton lessI nth nth_append_length)
    moreover have "\<forall>j. N < j \<and> j < length names \<longrightarrow> names ! j \<noteq> names ! N"
    proof (intro allI impI)
      fix j assume j: "N < j \<and> j < length names"
      with snoc.prems(3) have "(names @ [x]) ! j \<noteq> (names @ [x]) ! N" by simp
      with j N show "names ! j \<noteq> names ! N" by (simp add: nth_append)
    qed
    moreover from snoc.prems(2) nth have "names ! N \<noteq> ''__proto__''" by simp
    ultimately show ?thesis
      using snoc.IH N nth by (simp add: createCustomFlags_snoc obj_get_obj_set)
  qed
qed

text \<open>
  Claim C8, as amended. \<^verbatim>\<open>createCustomFlags\<close> reads no instance. It maps the name at
  position \<open>N\<close> (from 0) to \<^verbatim>\<open>1 << N\<close> provided the name does not occur again later in the
  list and is not \<^verbatim>\<open>__proto__\<close>; so it does for every name of a list without repetition.
  \<^verbatim>\<open>createCustomFlags(["A","B","C"])\<close> is \<^verbatim>\<open>{A:1, B:2, C:4}\<close>.
\<close>

theorem createCustomFlags_nth_name:
  assumes "N < length names"
    and "names ! N \<noteq> ''__proto__''"
    and "names ! N \<notin> set (drop (Suc N) names)"
  shows "obj_get (createCustomFlags names) (names ! N) = Some (js_shl 1 N) \<and>
         createCustomFlags [''A'', ''B'', ''C''] = [(''A'', 1), (''B'', 2), (''C'', 4)]"
proof -
  have "\<forall>j. N < j \<and> j < length names \<longrightarrow> names ! j \<noteq> names ! N"
  proof (intro allI impI)
    fix j assume j: "N < j \<and> j < length names"
    then have "drop (Suc N) names ! (j - Suc N) = names ! j"
      by simp
    moreover from j have "j - Suc N < length (drop (Suc N) names)"
      by auto
    ultimately have "names ! j \<in> set (drop (Suc N) names)"
      by (metis nth_mem)
    with assms(3) show "names ! j \<noteq> names ! N" by auto
  qed
  with assms(1,2) have "obj_get (createCustomFlags names) (names ! N) = Some (js_shl 1 N)"
    by (rule createCustomFlags_last_occurrence)
  moreover have "createCustomFlags [''A'', ''B'', ''C''] = [(''A'', 1), (''B'', 2), (''C'', 4)]"
    by (simp add: createCustomFlags_def obj_set_def js_shl_def upt_rec is_array_index_def
        is_digit_def)
  ultimately show ?thesis by simp
qed

theorem createCustomFlags_nth_name_witness:
  "(2::nat) < length [''A'', ''B'', ''A''] \<and>
   [''A'', ''B'', ''A''] ! 2 \<noteq> ''__proto__'' \<and>
   [''A'', ''B'', ''A''] ! 2 \<notin> set (drop (Suc 2) [''A'', ''B'', ''A'']) \<and>
   obj_get (createCustomFlags [''A'', ''B'', ''A'']) ''A'' = Some 4"
proof -
  have h1: "(2::nat) < length [''A'', ''B'', ''A'']" by simp
  have h2: "[''A'', ''B'', ''A''] ! 2 \<noteq> ''__proto__''" by simp
  have h3: "[''A'', ''B'', ''A''] ! 2 \<notin> set (drop (Suc 2) [''A'', ''B'', ''A''])" by simp
  show ?thesis
    using h1 h2 h3 createCustomFlags_nth_name [OF h1 h2 h3]
    by (simp add: js_shl_def)
qed

text \<open>
  The claim as the specification words it fails where a name is repeated: in
  \<^verbatim>\<open>["A","A"]\<close> the name at position 0 is mapped to \<^verbatim>\<open>1 << 1\<close>, the later assignment having
  overwritten the earlier. The name \<^verbatim>\<open>__proto__\<close> is mapped to nothing.
\<close>

theorem createCustomFlags_duplicate_counterexample:
  "obj_get (createCustomFlags [''A'', ''A'']) ([''A'', ''A''] ! 0) = Some 2 \<and>
   js_shl 1 0 = 1 \<and>
   createCustomFlags [''A'', ''A''] = [(''A'', 2)] \<and>
   createCustomFlags [''__proto__''] = []"
  by (simp add: createCustomFlags_def obj_set_def obj_get_def js_shl_def upt_rec
      is_array_index_def is_digit_def)

section \<open>The constructor\<close>

lemma keys_obj_set:
  "set (Object_keys (obj_set k v obj)) =
     (if k = ''__proto__'' then set (Object_keys obj) else insert k (set (Object_keys obj)))"
proof -
  have "set (map fst (update_own k v obj)) = set (map fst obj)"
    by (simp only: keys_update_own)
  moreover have "set (map fst (insert_index k v obj)) = insert k (set (map fst obj))"
    by (simp add: set_insert_index)
  ultimately show ?thesis
    by (auto simp: Object_keys_def obj_set_def)
qed

lemma keys_createCustomFlags:
  "set (Object_keys (createCustomFlags names)) = set names - {''__proto__''}"
proof (induction names rule: rev_induct)
  case Nil
  show ?case by (simp add: createCustomFlags_Nil Object_keys_def)
next
  case (snoc x names)
  then show ?case
    by (auto simp: createCustomFlags_snoc keys_obj_set)
qed

text \<open>
  Claim C1, as amended. The constructor validates nothing: for every list of custom names,
  with or without repeated names and however long, it returns an instance whose register
  is 0 and whose Flag Definition Set is \<^verbatim>\<open>createCustomFlags\<close> of the list. That object has
  each name of the list once as a key, \<^verbatim>\<open>__proto__\<close> apart.
\<close>

theorem constructor_accepts_every_list:
  "\<exists>this. new_FlagsManager (Some names) = Inr this \<and>
          flags this = 0 \<and>
          FLAGS this = createCustomFlags names \<and>
          distinct (Object_keys (FLAGS this)) \<and>
          set (Object_keys (FLAGS this)) = set names - {''__proto__''}"
proof -
  have "new_FlagsManager (Some names) = Inr \<lparr>flags = 0, FLAGS = createCustomFlags names\<rparr>"
    by (simp add: new_FlagsManager_def)
  then show ?thesis
    using distinct_createCustomFlags [of names] keys_createCustomFlags [of names]
    by simp
qed

text \<open>
  The claim as the specification words it fails: a list with a repeated name, and a list
  of 33 names, are both accepted. In the second the 33rd name shares the value 1 with the
  first, since \<^verbatim>\<open>1 << 32\<close> is 1.
\<close>

theorem constructor_counterexample:
  "\<not> distinct [''A'', ''A''] \<and>
   new_FlagsManager (Some [''A'', ''A'']) = Inr \<lparr>flags = 0, FLAGS = [(''A'', 2)]\<rparr> \<and>
   length
     [''fa'', ''fb'', ''fc'', ''fd'', ''fe'', ''ff'', ''fg'', ''fh'', ''fi'', ''fj'', ''fk'',
      ''fl'', ''fm'', ''fn'', ''fo'', ''fp'', ''fq'', ''fr'', ''fs'', ''ft'', ''fu'', ''fv'',
      ''fw'', ''fx'', ''fy'', ''fz'', ''fA'', ''fB'', ''fC'', ''fD'', ''fE'', ''fF'', ''fG''] = 33 \<and>
   new_FlagsManager (Some
     [''fa'', ''fb'', ''fc'', ''fd'', ''fe'', ''ff'', ''fg'', ''fh'', ''fi'', ''fj'', ''fk'',
      ''fl'', ''fm'', ''fn'', ''fo'', ''fp'', ''fq'', ''fr'', ''fs'', ''ft'', ''fu'', ''fv'',
      ''fw'', ''fx'', ''fy'', ''fz'', ''fA'', ''fB'', ''fC'', ''fD'', ''fE'', ''fF'', ''fG'']) =
   Inr \<lparr>flags = 0, FLAGS =
     [(''fa'', 1), (''fb'', 2), (''fc'', 4), (''fd'', 8), (''fe'', 16), (''ff'', 32),
      (''fg'', 64), (''fh'', 128), (''fi'', 256), (''fj'', 512), (''fk'', 1024),
      (''fl'', 2048), (''fm'', 4096), (''fn'', 8192), (''fo'', 16384), (''fp'', 32768),
      (''fq'', 65536), (''fr'', 131072), (''fs'', 262144), (''ft'', 524288),
      (''fu'', 1048576), (''fv'', 2097152), (''fw'', 4194304), (''fx'', 8388608),
      (''fy'', 16777216), (''fz'', 33554432), (''fA'', 67108864), (''fB'', 134217728),
      (''fC'', 268435456), (''fD'', 536870912), (''fE'', 1073741824), (''fF'', 2147483648),
      (''fG'', 1)]\<rparr>"
  by (simp add: new_FlagsManager_def createCustomFlags_def obj_set_def js_shl_def upt_rec
      is_array_index_def is_digit_def)

section \<open>Flag values of a constructed instance\<close>

text \<open>Every value the constructor puts in the Flag Definition Set has exactly one bit.\<close>

lemma js_shl_one_bit: "\<exists>i<32. js_shl 1 n = push_bit i 1"
  by (rule exI [of _ "n mod 32"]) (simp add: js_shl_def)

lemma constructed_value_one_bit:
  assumes "new_FlagsManager cfg = Inr m0" and "w \<in> set (Object_values (FLAGS m0))"
  shows "\<exists>i<32. w = push_bit i 1"
proof (cases cfg)
  case None
  with assms have "w \<in> set (Object_values DEFAULT_FLAGS)"
    by (auto simp: new_FlagsManager_def)
  then have "\<exists>n. w = js_shl 1 n"
    unfolding DEFAULT_FLAGS_def Object_values_def by auto
  then show ?thesis using js_shl_one_bit by auto
next
  case (Some names)
  with assms have "w \<in> set (Object_values (createCustomFlags names))"
    by (auto simp: new_FlagsManager_def)
  then have "\<exists>n. w = js_shl 1 n"
    using values_createCustomFlags by blast
  then show ?thesis using js_shl_one_bit by auto
qed

lemma constructed_flag_one_bit:
  assumes "new_FlagsManager cfg = Inr m0" and "FLAGS this = FLAGS m0"
    and "a \<in> set (flagValues this)"
  shows "\<exists>i<32. ToInt32 a = push_bit i 1"
proof -
  from assms(2,3) obtain w where w: "w \<in> set (Object_values (FLAGS m0))" "a = to_number w"
    by (auto simp: flagValues_def)
  from constructed_value_one_bit [OF assms(1) w(1)] w(2) show ?thesis
    by simp
qed

lemma bit_xor_one_bit:
  fixes r :: int32
  assumes "i < 32"
  shows "bit (r XOR push_bit i 1) n = (if n = i then \<not> bit r n else bit r n)"
  using assms by (auto simp: bit_simps)

lemma bit_and_not_one_bit:
  fixes r :: int32
  assumes "i < 32"
  shows "bit (r AND NOT (push_bit i 1)) n = (n \<noteq> i \<and> bit r n)"
  using assms by (auto simp: bit_simps dest: bit_imp_le_length)

lemma and_one_bit_zero:
  fixes r :: int32
  assumes "i < 32"
  shows "r AND push_bit i 1 = 0 \<longleftrightarrow> \<not> bit r i"
proof
  assume z: "r AND push_bit i 1 = 0"
  have "bit (r AND push_bit i 1) i = bit r i"
    using assms by (simp add: bit_simps)
  with z show "\<not> bit r i" by simp
next
  assume "\<not> bit r i"
  then show "r AND push_bit i 1 = 0"
    by (intro bit_eqI) (auto simp: bit_simps)
qed

section \<open>toggleFlag\<close>

text \<open>
  Claim C4. For an instance the constructor made, whatever its register now holds, and a
  value \<open>a\<close> of its Flag Definition Set: \<open>a\<close> is one bit \<open>i\<close>; \<^verbatim>\<open>toggleFlag(a)\<close> returns normally and
  inverts bit \<open>i\<close> of the register, every other bit staying as it was; a second
  \<^verbatim>\<open>toggleFlag(a)\<close> gives back the instance as it was before the first.
\<close>

theorem toggleFlag_flips_one_bit:
  assumes "new_FlagsManager cfg = Inr m0" and "FLAGS this = FLAGS m0"
    and "a \<in> set (flagValues this)"
  shows "\<exists>i<32. ToInt32 a = push_bit i 1 \<and>
           toggleFlag a this = (Inr (), this\<lparr>flags := flags this XOR push_bit i 1\<rparr>) \<and>
           (\<forall>n. bit (flags this XOR push_bit i 1) n =
                  (if n = i then \<not> bit (flags this) n else bit (flags this) n)) \<and>
           toggleFlag a (this\<lparr>flags := flags this XOR push_bit i 1\<rparr>) = (Inr (), this)"
proof -
  from constructed_flag_one_bit [OF assms] obtain i
    where i: "i < 32" "ToInt32 a = push_bit i 1" by blast
  have first: "toggleFlag a this = (Inr (), this\<lparr>flags := flags this XOR push_bit i 1\<rparr>)"
    using assms(3) i(2) by (simp add: toggleFlag_def validateFlag_def)
  have "a \<in> set (flagValues (this\<lparr>flags := flags this XOR push_bit i 1\<rparr>))"
    using assms(3) by (simp add: flagValues_def)
  then have second:
    "toggleFlag a (this\<lparr>flags := flags this XOR push_bit i 1\<rparr>) = (Inr (), this)"
    using i(2) by (simp add: toggleFlag_def validateFlag_def xor.assoc)
  from i first second bit_xor_one_bit [OF i(1), of "flags this"] show ?thesis
    by blast
qed

theorem toggleFlag_witness:
  "new_FlagsManager None = Inr \<lparr>flags = 0, FLAGS = DEFAULT_FLAGS\<rparr> \<and>
   4 \<in> set (flagValues \<lparr>flags = 5, FLAGS = DEFAULT_FLAGS\<rparr>) \<and>
   toggleFlag 4 \<lparr>flags = 5, FLAGS = DEFAULT_FLAGS\<rparr> =
     (Inr (), \<lparr>flags = 1, FLAGS = DEFAULT_FLAGS\<rparr>) \<and>
   toggleFlag 4 \<lparr>flags = 1, FLAGS = DEFAULT_FLAGS\<rparr> =
     (Inr (), \<lparr>flags = 5, FLAGS = DEFAULT_FLAGS\<rparr>)"
proof -
  have h1: "new_FlagsManager None = Inr \<lparr>flags = 0, FLAGS = DEFAULT_FLAGS\<rparr>"
    by (simp add: new_FlagsManager_def)
  have h2: "FLAGS \<lparr>flags = 5, FLAGS = DEFAULT_FLAGS\<rparr> = FLAGS \<lparr>flags = 0, FLAGS = DEFAULT_FLAGS\<rparr>"
    by simp
  have h3: "4 \<in> set (flagValues \<lparr>flags = 5, FLAGS = DEFAULT_FLAGS\<rparr>)"
    by (simp add: default_flagValues)
  have v: "ToInt32 4 = 4" by (simp add: ToInt32_def)
  let ?m = "\<lparr>flags = 5, FLAGS = DEFAULT_FLAGS\<rparr>"
  from toggleFlag_flips_one_bit [OF h1 h2 h3] obtain i
    where b: "ToInt32 4 = push_bit i 1"
      and t1: "toggleFlag 4 ?m = (Inr (), ?m\<lparr>flags := flags ?m XOR push_bit i 1\<rparr>)"
      and t2: "toggleFlag 4 (?m\<lparr>flags := flags ?m XOR push_bit i 1\<rparr>) = (Inr (), ?m)"
    by blast
  from t1 have "toggleFlag 4 ?m = (Inr (), \<lparr>flags = 1, FLAGS = DEFAULT_FLAGS\<rparr>)"
    unfolding b [symmetric] by (simp add: v)
  moreover from t2 have "toggleFlag 4 \<lparr>flags = 1, FLAGS = DEFAULT_FLAGS\<rparr> = (Inr (), ?m)"
    unfolding b [symmetric] by (simp add: v)
  ultimately show ?thesis using h1 h3
    by simp
qed

section \<open>unsetFlag and isFlagSet\<close>

lemma isFlagSet_member:
  "a \<in> set (flagValues this) \<Longrightarrow>
     isFlagSet a this = (Inr (flags this AND ToInt32 a \<noteq> 0), this)"
  by (simp add: isFlagSet_def validateFlag_def)

text \<open>
  Claim C5. For an instance the constructor made, whatever its register now holds, and a
  value \<open>a\<close> of its Flag Definition Set, which is one bit \<open>i\<close>: \<^verbatim>\<open>unsetFlag(a)\<close> returns
  normally with the register ANDed with the complement of \<open>a\<close>, so bit \<open>i\<close> is clear and every
  other bit is as it was; after \<^verbatim>\<open>setFlags(a)\<close>, which sets bit \<open>i\<close>, and then \<^verbatim>\<open>unsetFlag(a)\<close>,
  \<^verbatim>\<open>isFlagSet(a)\<close> is false; and when bit \<open>i\<close> is clear already, that is when \<^verbatim>\<open>isFlagSet(a)\<close> is
  false, \<^verbatim>\<open>unsetFlag(a)\<close> leaves the instance as it was.
\<close>

theorem unsetFlag_clears_one_bit:
  assumes "new_FlagsManager cfg = Inr m0" and "FLAGS this = FLAGS m0"
    and "a \<in> set (flagValues this)"
  shows "\<exists>i<32. ToInt32 a = push_bit i 1 \<and>
           unsetFlag a this = (Inr (), this\<lparr>flags := flags this AND NOT (push_bit i 1)\<rparr>) \<and>
           (\<forall>n. bit (flags this AND NOT (push_bit i 1)) n = (n \<noteq> i \<and> bit (flags this) n)) \<and>
           (\<exists>s1 s2. setFlags [a] this = (Inr (), s1) \<and> bit (flags s1) i \<and>
                     unsetFlag a s1 = (Inr (), s2) \<and>
                     isFlagSet a s2 = (Inr False, s2)) \<and>
           (if bit (flags this) i then isFlagSet a this = (Inr True, this)
            else isFlagSet a this = (Inr False, this) \<and> unsetFlag a this = (Inr (), this))"
proof -
  from constructed_flag_one_bit [OF assms] obtain i
    where i: "i < 32" "ToInt32 a = push_bit i 1" by blast
  let ?b = "push_bit i 1 :: int32"
  have mem: "\<And>r. a \<in> set (flagValues (this\<lparr>flags := r\<rparr>))"
    using assms(3) by (simp add: flagValues_def)
  have uns: "\<And>s. a \<in> set (flagValues s) \<Longrightarrow>
                unsetFlag a s = (Inr (), s\<lparr>flags := flags s AND NOT ?b\<rparr>)"
    using i(2) by (simp add: unsetFlag_def validateFlag_def)
  have bits: "\<forall>n. bit (flags this AND NOT ?b) n = (n \<noteq> i \<and> bit (flags this) n)"
    using bit_and_not_one_bit [OF i(1)] by blast
  have set1: "setFlags [a] this = (Inr (), this\<lparr>flags := flags this OR ?b\<rparr>)"
    using assms(3) i(2) by (simp add: setFlags_def validateFlag_def)
  have on: "bit (flags this OR ?b) i"
    using i(1) by (simp add: bit_simps)
  have uns1: "unsetFlag a (this\<lparr>flags := flags this OR ?b\<rparr>) =
                (Inr (), this\<lparr>flags := (flags this OR ?b) AND NOT ?b\<rparr>)"
    using uns [OF mem [of "flags this OR ?b"]] by simp
  have "\<not> bit ((flags this OR ?b) AND NOT ?b) i"
    using bit_and_not_one_bit [OF i(1), of "flags this OR ?b" i] by simp
  then have "((flags this OR ?b) AND NOT ?b) AND ?b = 0"
    using and_one_bit_zero [OF i(1)] by blast
  then have q: "isFlagSet a (this\<lparr>flags := (flags this OR ?b) AND NOT ?b\<rparr>) =
             (Inr False, this\<lparr>flags := (flags this OR ?b) AND NOT ?b\<rparr>)"
    using isFlagSet_member [OF mem [of "(flags this OR ?b) AND NOT ?b"]] i(2) by simp
  have seq: "\<exists>s1 s2. setFlags [a] this = (Inr (), s1) \<and> bit (flags s1) i \<and>
                     unsetFlag a s1 = (Inr (), s2) \<and> isFlagSet a s2 = (Inr False, s2)"
    using set1 on uns1 q by (intro exI [of _ "this\<lparr>flags := flags this OR ?b\<rparr>"]
        exI [of _ "this\<lparr>flags := (flags this OR ?b) AND NOT ?b\<rparr>"]) simp
  have query: "isFlagSet a this = (Inr (bit (flags this) i), this)"
    using isFlagSet_member [OF assms(3)] i(2) and_one_bit_zero [OF i(1), of "flags this"]
    by simp
  have noop: "\<not> bit (flags this) i \<Longrightarrow> unsetFlag a this = (Inr (), this)"
  proof -
    assume clear: "\<not> bit (flags this) i"
    have "flags this AND NOT ?b = flags this"
      by (rule bit_eqI) (use clear bits in auto)
    with uns [OF assms(3)] show ?thesis by simp
  qed
  have last: "if bit (flags this) i then isFlagSet a this = (Inr True, this)
            else isFlagSet a this = (Inr False, this) \<and> unsetFlag a this = (Inr (), this)"
    using query noop by simp
  from i uns [OF assms(3)] bits seq last show ?thesis
    by blast
qed

theorem unsetFlag_witness:
  "new_FlagsManager None = Inr \<lparr>flags = 0, FLAGS = DEFAULT_FLAGS\<rparr> \<and>
   4 \<in> set (flagValues \<lparr>flags = 5, FLAGS = DEFAULT_FLAGS\<rparr>) \<and>
   unsetFlag 4 \<lparr>flags = 5, FLAGS = DEFAULT_FLAGS\<rparr> =
     (Inr (), \<lparr>flags = 1, FLAGS = DEFAULT_FLAGS\<rparr>)"
proof -
  have h1: "new_FlagsManager None = Inr \<lparr>flags = 0, FLAGS = DEFAULT_FLAGS\<rparr>"
    by (simp add: new_FlagsManager_def)
  have h2: "FLAGS \<lparr>flags = 5, FLAGS = DEFAULT_FLAGS\<rparr> = FLAGS \<lparr>flags = 0, FLAGS = DEFAULT_FLAGS\<rparr>"
    by simp
  have h3: "4 \<in> set (flagValues \<lparr>flags = 5, FLAGS = DEFAULT_FLAGS\<rparr>)"
    by (simp add: default_flagValues)
  have v: "ToInt32 4 = 4" by (simp add: ToInt32_def)
  let ?m = "\<lparr>flags = 5, FLAGS = DEFAULT_FLAGS\<rparr>"
  from unsetFlag_clears_one_bit [OF h1 h2 h3] obtain i
    where b: "ToInt32 4 = push_bit i 1"
      and u: "unsetFlag 4 ?m = (Inr (), ?m\<lparr>flags := flags ?m AND NOT (push_bit i 1)\<rparr>)"
    by blast
  from u have "unsetFlag 4 ?m = (Inr (), \<lparr>flags = 1, FLAGS = DEFAULT_FLAGS\<rparr>)"
    unfolding b [symmetric] by (simp add: v)
  with h1 h3 show ?thesis
    by simp
qed

section \<open>getActiveFlags and clearFlags\<close>










section \<open>The register stays within the defined bits\<close>

lemma bit_foldl_OR_values:
  fixes a :: int32
  shows "bit (foldl (OR) a ws) n \<longleftrightarrow> bit a n \<or> (\<exists>w \<in> set ws. bit w n)"
  by (induction ws arbitrary: a) (auto simp: bit_or_iff)

lemma AND_NOT_zero_iff_bits:
  fixes r m :: int32
  shows "r AND NOT m = 0 \<longleftrightarrow> (\<forall>n. bit r n \<longrightarrow> bit m n)"
proof
  assume z: "r AND NOT m = 0"
  show "\<forall>n. bit r n \<longrightarrow> bit m n"
  proof (intro allI impI)
    fix n assume r: "bit r n"
    have "\<not> bit (r AND NOT m) n" by (simp add: z)
    with r show "bit m n" by (auto simp: bit_simps dest: bit_imp_le_length)
  qed
next
  assume "\<forall>n. bit r n \<longrightarrow> bit m n"
  then show "r AND NOT m = 0"
    by (intro bit_eqI) (auto simp: bit_simps)
qed

lemma member_ToInt32:
  "f \<in> set (flagValues this) \<Longrightarrow> ToInt32 f \<in> set (Object_values (FLAGS this))"
  by (auto simp: flagValues_def)

lemma setFlags_Inr:
  assumes "setFlags fs this = (Inr (), this')"
  shows "set fs \<subseteq> set (flagValues this) \<and>
         this' = this\<lparr>flags := foldl (\<lambda>acc flag. acc OR ToInt32 flag) (flags this) fs\<rparr>"
proof (cases "find (\<lambda>f. f \<notin> set (flagValues this)) fs")
  case None
  then have "set fs \<subseteq> set (flagValues this)"
    by (auto simp: find_None_iff)
  with assms None show ?thesis
    by (simp add: setFlags_def forEach_validateFlag_find)
next
  case (Some v)
  with assms show ?thesis
    by (simp add: setFlags_def forEach_validateFlag_find)
qed

lemma apply_operation_preserves:
  assumes "apply_operation op this = (res, this')"
  shows "FLAGS this' = FLAGS this \<and> (within_defined_bits this \<longrightarrow> within_defined_bits this')"
proof (cases op)
  case (SetFlags fs)
  show ?thesis
  proof (cases res)
    case (Inl e)
    with assms SetFlags have "this' = this"
      by (auto simp: setFlags_def forEach_validateFlag_find split: option.splits)
    then show ?thesis by simp
  next
    case (Inr u)
    with assms SetFlags have "setFlags fs this = (Inr (), this')" by simp
    from setFlags_Inr [OF this]
    have fs: "set fs \<subseteq> set (flagValues this)"
      and eq: "this' = this\<lparr>flags := foldl (\<lambda>acc flag. acc OR ToInt32 flag) (flags this) fs\<rparr>"
      by simp_all
    from fs have "\<forall>f \<in> set fs. ToInt32 f \<in> set (Object_values (FLAGS this))"
      using member_ToInt32 by blast
    then show ?thesis
      unfolding eq within_defined_bits_def by (auto simp: bit_foldl_OR)
  qed
next
  case (ToggleFlag f)
  show ?thesis
  proof (cases "f \<in> set (flagValues this)")
    case True
    with assms ToggleFlag have eq: "this' = this\<lparr>flags := flags this XOR ToInt32 f\<rparr>"
      by (simp add: toggleFlag_def validateFlag_def)
    from True have "ToInt32 f \<in> set (Object_values (FLAGS this))"
      by (rule member_ToInt32)
    then show ?thesis
      unfolding eq within_defined_bits_def by (auto simp: bit_xor_iff)
  next
    case False
    with assms ToggleFlag have "this' = this"
      by (simp add: toggleFlag_def validateFlag_def)
    then show ?thesis by simp
  qed
next
  case (UnsetFlag f)
  show ?thesis
  proof (cases "f \<in> set (flagValues this)")
    case True
    with assms UnsetFlag have eq: "this' = this\<lparr>flags := flags this AND NOT (ToInt32 f)\<rparr>"
      by (simp add: unsetFlag_def validateFlag_def)
    show ?thesis
      unfolding eq within_defined_bits_def by (auto simp: bit_and_iff)
  next
    case False
    with assms UnsetFlag have "this' = this"
      by (simp add: unsetFlag_def validateFlag_def)
    then show ?thesis by simp
  qed
next
  case ClearFlags
  with assms have "this' = this\<lparr>flags := 0\<rparr>"
    by (simp add: clearFlags_def)
  then show ?thesis
    by (simp add: within_defined_bits_def)
qed

lemma run_operations_preserves:
  assumes "run_operations ops this = (res, this')"
  shows "FLAGS this' = FLAGS this \<and> (within_defined_bits this \<longrightarrow> within_defined_bits this')"
  using assms
proof (induction ops arbitrary: this)
  case Nil
  then show ?case by simp
next
  case (Cons op ops)
  obtain r1 s1 where step: "apply_operation op this = (r1, s1)"
    by (cases "apply_operation op this")
  note p1 = apply_operation_preserves [OF step]
  show ?case
  proof (cases r1)
    case (Inl e)
    with Cons.prems step have "this' = s1" by simp
    with p1 show ?thesis by simp
  next
    case (Inr u)
    with Cons.prems step have "run_operations ops s1 = (res, this')" by simp
    from Cons.IH [OF this] p1 show ?thesis by simp
  qed
qed

lemma DEFAULT_FLAGS_all_bits: "foldl (OR) 0 (Object_values DEFAULT_FLAGS) = 2 ^ 15 - 1"
  by (simp add: DEFAULT_FLAGS_values)

lemma constructed_run_within_defined_bits:
  assumes "new_FlagsManager cfg = Inr m0"
    and "run_operations ops m0 = (res, this)"
  shows "FLAGS this = FLAGS m0 \<and>
         flags this AND NOT (foldl (OR) 0 (Object_values (FLAGS this))) = 0"
proof -
  from assms(1) have "flags m0 = 0"
    by (auto simp: new_FlagsManager_def)
  then have "within_defined_bits m0"
    by (simp add: within_defined_bits_def)
  with run_operations_preserves [OF assms(2)]
  have F: "FLAGS this = FLAGS m0" and w: "within_defined_bits this"
    by simp_all
  from w have "flags this AND NOT (foldl (OR) 0 (Object_values (FLAGS this))) = 0"
    unfolding AND_NOT_zero_iff_bits within_defined_bits_def by (simp add: bit_foldl_OR_values)
  with F show ?thesis by simp
qed

text \<open>
  Claim C10. Start from the instance the constructor makes without an argument and run
  any list of \<^verbatim>\<open>setFlags\<close>, \<^verbatim>\<open>toggleFlag\<close>, \<^verbatim>\<open>unsetFlag\<close> and \<^verbatim>\<open>clearFlags\<close> calls, all of which
  return normally. Then the Flag Definition Set is still the default one, the register has
  no bit outside the OR of all its values, and that OR is \<open>2^15 - 1\<close>: the register ANDed
  with the complement of \<open>2^15 - 1\<close> is 0.
\<close>

theorem register_within_default_bits:
  assumes "new_FlagsManager None = Inr m0"
    and "run_operations ops m0 = (Inr (), this)"
  shows "FLAGS this = DEFAULT_FLAGS \<and>
         flags this AND NOT (foldl (OR) 0 (Object_values (FLAGS this))) = 0 \<and>
         foldl (OR) 0 (Object_values (FLAGS this)) = 2 ^ 15 - 1 \<and>
         flags this AND NOT (2 ^ 15 - 1) = 0"
proof -
  from assms(1) have "FLAGS m0 = DEFAULT_FLAGS"
    by (auto simp: new_FlagsManager_def)
  with constructed_run_within_defined_bits [OF assms]
  have F: "FLAGS this = DEFAULT_FLAGS"
    by simp
  from constructed_run_within_defined_bits [OF assms]
  have z: "flags this AND NOT (foldl (OR) 0 (Object_values (FLAGS this))) = 0"
    by (rule conjunct2)
  from F have m: "foldl (OR) 0 (Object_values (FLAGS this)) = 2 ^ 15 - 1"
    by (simp only: DEFAULT_FLAGS_all_bits)
  from z have "flags this AND NOT (2 ^ 15 - 1) = 0"
    unfolding m .
  with F z m show ?thesis by (intro conjI)
qed

theorem register_within_default_bits_witness:
  "new_FlagsManager None = Inr \<lparr>flags = 0, FLAGS = DEFAULT_FLAGS\<rparr> \<and>
   run_operations [SetFlags [1, 4], ToggleFlag 1, ToggleFlag 16384, UnsetFlag 4]
       \<lparr>flags = 0, FLAGS = DEFAULT_FLAGS\<rparr> =
     (Inr (), \<lparr>flags = 16384, FLAGS = DEFAULT_FLAGS\<rparr>) \<and>
   (16384 :: int32) AND NOT (2 ^ 15 - 1) = 0"
proof -
  have h1: "new_FlagsManager None = Inr \<lparr>flags = 0, FLAGS = DEFAULT_FLAGS\<rparr>"
    by (simp add: new_FlagsManager_def)
  have s1: "setFlags [1, 4] \<lparr>flags = 0, FLAGS = DEFAULT_FLAGS\<rparr> =
      (Inr (), \<lparr>flags = 5, FLAGS = DEFAULT_FLAGS\<rparr>)"
    by (simp add: setFlags_def validateFlag_def default_flagValues ToInt32_def)
  have s2: "toggleFlag 1 \<lparr>flags = 5, FLAGS = DEFAULT_FLAGS\<rparr> =
      (Inr (), \<lparr>flags = 4, FLAGS = DEFAULT_FLAGS\<rparr>)"
    by (simp add: toggleFlag_def validateFlag_def default_flagValues ToInt32_def)
  have s3: "toggleFlag 16384 \<lparr>flags = 4, FLAGS = DEFAULT_FLAGS\<rparr> =
      (Inr (), \<lparr>flags = 16388, FLAGS = DEFAULT_FLAGS\<rparr>)"
    by (simp add: toggleFlag_def validateFlag_def default_flagValues ToInt32_def)
  have s4: "unsetFlag 4 \<lparr>flags = 16388, FLAGS = DEFAULT_FLAGS\<rparr> =
      (Inr (), \<lparr>flags = 16384, FLAGS = DEFAULT_FLAGS\<rparr>)"
    by (simp add: unsetFlag_def validateFlag_def default_flagValues ToInt32_def)
  have h2: "run_operations [SetFlags [1, 4], ToggleFlag 1, ToggleFlag 16384, UnsetFlag 4]
       \<lparr>flags = 0, FLAGS = DEFAULT_FLAGS\<rparr> =
     (Inr (), \<lparr>flags = 16384, FLAGS = DEFAULT_FLAGS\<rparr>)"
    by (simp add: s1 s2 s3 s4)
  from register_within_default_bits [OF h1 h2] have "(16384 :: int32) AND NOT (2 ^ 15 - 1) = 0"
    by simp
  with h1 h2 show ?thesis by simp
qed

section \<open>Further properties\<close>

text \<open>
  The order of \<^verbatim>\<open>Object.keys\<close>: names that are array indices come first, in numeric order.
\<close>

lemma createCustomFlags_index_names:
  "createCustomFlags [''10'', ''2'', ''x''] = [(''2'', 2), (''10'', 1), (''x'', 4)]"
  by (simp add: createCustomFlags_def obj_set_def js_shl_def upt_rec is_array_index_def
      is_digit_def decimal_val_def)

text \<open>
  For a list of distinct names, none an array index and none \<^verbatim>\<open>__proto__\<close>, the keys of
  \<^verbatim>\<open>createCustomFlags\<close> are the names in the order of the list: the order in which
  \<^verbatim>\<open>getActiveFlags\<close> reports them is then the order of declaration.
\<close>

theorem Object_keys_createCustomFlags:
  assumes "distinct names"
    and "''__proto__'' \<notin> set names"
    and "\<forall>name \<in> set names. \<not> is_array_index name"
  shows "Object_keys (createCustomFlags names) = names"
  using assms
proof (induction names rule: rev_induct)
  case Nil
  show ?case by (simp add: createCustomFlags_Nil Object_keys_def)
next
  case (snoc x names)
  then have IH: "Object_keys (createCustomFlags names) = names"
    by simp
  from snoc.prems have x: "x \<noteq> ''__proto__''" "x \<notin> set names" "\<not> is_array_index x"
    by auto
  from IH x(2) have "x \<notin> set (map fst (createCustomFlags names))"
    by (simp add: Object_keys_def)
  with x(1,3) have "obj_set x (js_shl 1 (length names)) (createCustomFlags names) =
                     createCustomFlags names @ [(x, js_shl 1 (length names))]"
    by (simp add: obj_set_def)
  with IH show ?case
    by (simp add: createCustomFlags_snoc Object_keys_def)
qed

theorem Object_keys_createCustomFlags_witness:
  "distinct [''CUSTOM_FLAG_1'', ''CUSTOM_FLAG_2'', ''CUSTOM_FLAG_3''] \<and>
   Object_keys (createCustomFlags [''CUSTOM_FLAG_1'', ''CUSTOM_FLAG_2'', ''CUSTOM_FLAG_3'']) =
     [''CUSTOM_FLAG_1'', ''CUSTOM_FLAG_2'', ''CUSTOM_FLAG_3'']"
proof -
  have h1: "distinct [''CUSTOM_FLAG_1'', ''CUSTOM_FLAG_2'', ''CUSTOM_FLAG_3'']" by simp
  have h2: "''__proto__'' \<notin> set [''CUSTOM_FLAG_1'', ''CUSTOM_FLAG_2'', ''CUSTOM_FLAG_3'']"
    by simp
  have h3: "\<forall>name \<in> set [''CUSTOM_FLAG_1'', ''CUSTOM_FLAG_2'', ''CUSTOM_FLAG_3''].
              \<not> is_array_index name"
    by (simp add: is_array_index_def is_digit_def)
  from h1 Object_keys_createCustomFlags [OF h1 h2 h3] show ?thesis
    by simp
qed

text \<open>
  On an instance the constructor made, after \<^verbatim>\<open>setFlags(a, b)\<close> with two values of the Flag
  Definition Set, \<^verbatim>\<open>isFlagSet(a)\<close>, \<^verbatim>\<open>isFlagSet(b)\<close> and \<^verbatim>\<open>areFlagsSet(a, b)\<close> are all true.
\<close>

theorem setFlags_then_queries:
  assumes "new_FlagsManager cfg = Inr m0" and "FLAGS this = FLAGS m0"
    and "a \<in> set (flagValues this)" and "b \<in> set (flagValues this)"
  shows "\<exists>s. setFlags [a, b] this = (Inr (), s) \<and>
             isFlagSet a s = (Inr True, s) \<and>
             isFlagSet b s = (Inr True, s) \<and>
             areFlagsSet [a, b] s = (Inr True, s)"
proof -
  from constructed_flag_one_bit [OF assms(1,2,3)] obtain i
    where i: "i < 32" "ToInt32 a = push_bit i 1" by blast
  from constructed_flag_one_bit [OF assms(1,2,4)] obtain j
    where j: "j < 32" "ToInt32 b = push_bit j 1" by blast
  let ?r = "(flags this OR ToInt32 a) OR ToInt32 b"
  let ?s = "this\<lparr>flags := ?r\<rparr>"
  have set: "setFlags [a, b] this = (Inr (), ?s)"
    using assms(3,4) by (simp add: setFlags_def validateFlag_def)
  have mem: "a \<in> set (flagValues ?s)" "b \<in> set (flagValues ?s)"
    using assms(3,4) by (simp_all add: flagValues_def)
  have "bit ?r i" "bit ?r j"
    using i j by (simp_all add: bit_simps)
  then have nz: "?r AND ToInt32 a \<noteq> 0" "?r AND ToInt32 b \<noteq> 0"
    using and_one_bit_zero [OF i(1), of ?r] and_one_bit_zero [OF j(1), of ?r] i(2) j(2)
    by simp_all
  have qa: "isFlagSet a ?s = (Inr True, ?s)"
    using isFlagSet_member [OF mem(1)] nz(1) by simp
  have qb: "isFlagSet b ?s = (Inr True, ?s)"
    using isFlagSet_member [OF mem(2)] nz(2) by simp
  have "?r AND ((0 OR ToInt32 a) OR ToInt32 b) = (0 OR ToInt32 a) OR ToInt32 b"
    by (rule bit_eqI) (auto simp: bit_simps)
  then have qs: "areFlagsSet [a, b] ?s = (Inr True, ?s)"
    by (simp add: areFlagsSet_def)
  from set qa qb qs show ?thesis
    by blast
qed

theorem setFlags_then_queries_witness:
  "new_FlagsManager None = Inr \<lparr>flags = 0, FLAGS = DEFAULT_FLAGS\<rparr> \<and>
   1 \<in> set (flagValues \<lparr>flags = 0, FLAGS = DEFAULT_FLAGS\<rparr>) \<and>
   4 \<in> set (flagValues \<lparr>flags = 0, FLAGS = DEFAULT_FLAGS\<rparr>) \<and>
   (\<exists>s. setFlags [1, 4] \<lparr>flags = 0, FLAGS = DEFAULT_FLAGS\<rparr> = (Inr (), s) \<and>
        isFlagSet 1 s = (Inr True, s) \<and> isFlagSet 4 s = (Inr True, s) \<and>
        areFlagsSet [1, 4] s = (Inr True, s))"
proof -
  have h1: "new_FlagsManager None = Inr \<lparr>flags = 0, FLAGS = DEFAULT_FLAGS\<rparr>"
    by (simp add: new_FlagsManager_def)
  have h2: "FLAGS \<lparr>flags = 0, FLAGS = DEFAULT_FLAGS\<rparr> = FLAGS \<lparr>flags = 0, FLAGS = DEFAULT_FLAGS\<rparr>"
    by simp
  have h3: "1 \<in> set (flagValues \<lparr>flags = 0, FLAGS = DEFAULT_FLAGS\<rparr>)"
    and h4: "4 \<in> set (flagValues \<lparr>flags = 0, FLAGS = DEFAULT_FLAGS\<rparr>)"
    by (simp_all add: default_flagValues)
  from h1 h3 h4 setFlags_then_queries [OF h1 h2 h3 h4] show ?thesis
    by (intro conjI)
qed

end
